theory Spec2Isabelle
  imports Complex_Main "HOL-Library.Sublist"
begin

section \<open>JavaScript strings\<close>

text \<open>
  A string is a list of characters, one per code unit. \<open>is_ws\<close> is the white space
  and line terminator set that \<open>String.prototype.trim\<close> strips, as far as it lies
  within the one-byte characters: tab, line feed, vertical tab, form feed, carriage
  return, space and no-break space.
\<close>

definition newline :: char where
  "newline = CHR 0x0A"

definition is_ws :: "char \<Rightarrow> bool" where
  "is_ws c = (c \<in> {CHR 0x09, CHR 0x0A, CHR 0x0B, CHR 0x0C, CHR 0x0D, CHR 0x20, CHR 0xA0})"

definition trim :: "string \<Rightarrow> string" where
  "trim s = rev (dropWhile is_ws (rev (dropWhile is_ws s)))"

definition startsWith :: "string \<Rightarrow> string \<Rightarrow> bool" where
  "startsWith s p = (take (length p) s = p)"

text \<open>
  \<open>s.split('\n')\<close>: the pieces between line feeds, in order; there is always at least
  one piece. \<open>cur\<close> is the piece being read.
\<close>

fun split_from :: "string \<Rightarrow> string \<Rightarrow> string list" where
  "split_from cur [] = [cur]"
| "split_from cur (c # cs) =
     (if c = newline then cur # split_from [] cs else split_from (cur @ [c]) cs)"

definition split_nl :: "string \<Rightarrow> string list" where
  "split_nl s = split_from [] s"

text \<open>\<open>x || d\<close> on strings: the empty string is falsy.\<close>

definition or_default :: "string \<Rightarrow> string \<Rightarrow> string" where
  "or_default x d = (if x = [] then d else x)"

section \<open>The typewriter hook (frontend/src/hooks/useTypewriter.js)\<close>

text \<open>
  The hook keeps two pieces of React state, \<open>displayText\<close> and \<open>isComplete\<close>, and a
  timer: after the effect has run a timeout of \<open>delay\<close> ms is pending; when it fires an
  interval is installed whose closure holds the local variable \<open>index\<close>; the interval
  clears itself once the whole text has been shown. Strings are lists of characters,
  one per code unit, so \<open>text.slice(0, n)\<close> is \<open>take n text\<close>.
\<close>

datatype timer = NoTimer | Delay | Interval nat

record typewriter =
  displayText :: string
  isComplete :: bool
  timer :: timer

datatype tw_event = TimeoutFires | Tick

definition tw_initial :: typewriter where
  "tw_initial = \<lparr>displayText = [], isComplete = False, timer = NoTimer\<rparr>"

definition tw_effect :: "string \<Rightarrow> typewriter \<Rightarrow> typewriter" where
  "tw_effect text st =
     (if text = [] then st
      else st\<lparr>displayText := [], isComplete := False, timer := Delay\<rparr>)"

fun tw_step :: "string \<Rightarrow> tw_event \<Rightarrow> typewriter \<Rightarrow> typewriter" where
  "tw_step text TimeoutFires st =
     (case timer st of Delay \<Rightarrow> st\<lparr>timer := Interval 0\<rparr> | _ \<Rightarrow> st)"
| "tw_step text Tick st =
     (case timer st of
        Interval index \<Rightarrow>
          (if index < length text
           then st\<lparr>displayText := take (index + 1) text, timer := Interval (index + 1)\<rparr>
           else st\<lparr>isComplete := True, timer := NoTimer\<rparr>)
      | _ \<Rightarrow> st)"

definition useTypewriter :: "string \<Rightarrow> tw_event list \<Rightarrow> typewriter" where
  "useTypewriter text evs = fold (tw_step text) evs (tw_effect text tw_initial)"

text \<open>The invariant that links the closure variable \<open>index\<close> to the shown text.\<close>

definition tw_inv :: "string \<Rightarrow> typewriter \<Rightarrow> bool" where
  "tw_inv text st =
     (case timer st of
        Interval index \<Rightarrow> displayText st = take index text \<and> \<not> isComplete st
      | Delay \<Rightarrow> displayText st = [] \<and> \<not> isComplete st
      | NoTimer \<Rightarrow> (if isComplete st then displayText st = text else displayText st = []))"

lemma tw_inv_effect: "tw_inv text (tw_effect text tw_initial)"
  by (simp add: tw_inv_def tw_effect_def tw_initial_def)

lemma tw_inv_step: "tw_inv text st \<Longrightarrow> tw_inv text (tw_step text e st)"
  by (cases e; cases "timer st") (auto simp: tw_inv_def)

lemma tw_inv_fold: "tw_inv text st \<Longrightarrow> tw_inv text (fold (tw_step text) evs st)"
  by (induction evs arbitrary: st) (simp_all add: tw_inv_step)

lemma tw_inv_run: "tw_inv text (useTypewriter text evs)"
  unfolding useTypewriter_def by (rule tw_inv_fold [OF tw_inv_effect])

lemma tw_inv_prefix: "tw_inv text st \<Longrightarrow> prefix (displayText st) text"
  by (cases "timer st") (auto simp: tw_inv_def take_is_prefix split: if_splits)

lemma tw_inv_complete: "tw_inv text st \<Longrightarrow> isComplete st \<Longrightarrow> displayText st = text"
  by (cases "timer st") (auto simp: tw_inv_def split: if_splits)

lemma tw_inv_mono:
  "tw_inv text st \<Longrightarrow> length (displayText st) \<le> length (displayText (tw_step text e st))"
  by (cases e; cases "timer st") (auto simp: tw_inv_def)

lemma tw_ticks:
  "n \<le> length text \<Longrightarrow>
   fold (tw_step text) (replicate n Tick) (st\<lparr>displayText := [], timer := Interval 0\<rparr>)
     = st\<lparr>displayText := take n text, timer := Interval n\<rparr>"
proof (induction n)
  case 0
  then show ?case by simp
next
  case (Suc n)
  have "replicate (Suc n) Tick = replicate n Tick @ [Tick]"
    by (simp add: replicate_append_same)
  then have "fold (tw_step text) (replicate (Suc n) Tick) (st\<lparr>displayText := [], timer := Interval 0\<rparr>)
      = tw_step text Tick
          (fold (tw_step text) (replicate n Tick) (st\<lparr>displayText := [], timer := Interval 0\<rparr>))"
    by (simp del: replicate_Suc fold_replicate)
  also have "\<dots> = tw_step text Tick (st\<lparr>displayText := take n text, timer := Interval n\<rparr>)"
    using Suc by simp
  also have "\<dots> = st\<lparr>displayText := take (Suc n) text, timer := Interval (Suc n)\<rparr>"
    using Suc.prems by simp
  finally show ?case .
qed

text \<open>
  The effect does finish: once the timeout has fired, one tick per character and one
  more tick show the whole text and set \<open>isComplete\<close>.
\<close>

lemma useTypewriter_completes:
  assumes "text \<noteq> []"
  shows "useTypewriter text (TimeoutFires # replicate (length text) Tick @ [Tick])
           = \<lparr>displayText = text, isComplete = True, timer = NoTimer\<rparr>"
proof -
  have "fold (tw_step text) (replicate (length text) Tick)
          (tw_initial\<lparr>displayText := [], timer := Interval 0\<rparr>)
        = tw_initial\<lparr>displayText := take (length text) text, timer := Interval (length text)\<rparr>"
    by (rule tw_ticks) simp
  with assms show ?thesis
    by (simp add: useTypewriter_def tw_effect_def tw_initial_def del: fold_replicate)
qed

text \<open>
  Claim C8. While one run of the effect of \<open>useTypewriter\<close> goes on for a fixed text
  (with speed and delay fixed, the effect runs once), whatever the
  sequence of timer events, \<open>displayText\<close> is a prefix of the text, a further event never
  makes it shorter, and whenever \<open>isComplete\<close> is true \<open>displayText\<close> is the whole text.
\<close>

theorem useTypewriter_invariant:
  "prefix (displayText (useTypewriter text evs)) text
   \<and> length (displayText (useTypewriter text evs))
       \<le> length (displayText (useTypewriter text (evs @ [e])))
   \<and> (isComplete (useTypewriter text evs) \<longrightarrow> displayText (useTypewriter text evs) = text)"
proof -
  have inv: "tw_inv text (useTypewriter text evs)" by (rule tw_inv_run)
  have "useTypewriter text (evs @ [e]) = tw_step text e (useTypewriter text evs)"
    by (simp add: useTypewriter_def)
  with inv show ?thesis
    by (simp add: tw_inv_prefix tw_inv_complete tw_inv_mono)
qed

theorem useTypewriter_invariant_witness:
  "isComplete (useTypewriter ''Hi'' [TimeoutFires, Tick, Tick, Tick])
   \<and> displayText (useTypewriter ''Hi'' [TimeoutFires, Tick, Tick, Tick]) = ''Hi''"
  using useTypewriter_invariant [of "''Hi''" "[TimeoutFires, Tick, Tick, Tick]" Tick]
  by (simp add: useTypewriter_def tw_effect_def tw_initial_def)

section \<open>Message formatting (frontend/src/components/MessageBubble.jsx)\<close>

text \<open>
  \<open>formatContent\<close> applies four global regular-expression replacements in a row. The
  first three have the shape \<open>/D(.*?)D/g\<close> for a delimiter \<open>D\<close> (\<open>**\<close>, \<open>*\<close>, a backtick)
  and replace each match by the captured group between two tags. The dot matches every
  character but a line terminator (line feed and carriage return among the one-byte
  characters), and \<open>*?\<close> is lazy: after the opening delimiter the match closes at the
  first place where the delimiter stands again, and fails when a line terminator comes
  first.
\<close>

definition line_terminator :: "char \<Rightarrow> bool" where
  "line_terminator c = (c = CHR 0x0A \<or> c = CHR 0x0D)"

text \<open>
  \<open>find_close d s\<close>: the shortest \<open>inner\<close> with \<open>s = inner @ d @ rest\<close> and no line
  terminator in \<open>inner\<close>, as \<open>(.*?)D\<close> finds it from the start of \<open>s\<close>.
\<close>

fun find_close :: "string \<Rightarrow> string \<Rightarrow> (string \<times> string) option" where
  "find_close d [] = (if d = [] then Some ([], []) else None)"
| "find_close d (c # cs) =
     (if startsWith (c # cs) d then Some ([], drop (length d) (c # cs))
      else if line_terminator c then None
      else (case find_close d cs of
              None \<Rightarrow> None
            | Some (inner, rest) \<Rightarrow> Some (c # inner, rest)))"

lemma find_close_length:
  "find_close d s = Some (inner, rest) \<Longrightarrow> length rest \<le> length s"
  by (induction s arbitrary: inner) (auto split: if_splits option.splits)

text \<open>
  \<open>s.replace(/D(.*?)D/g, open_tag + '$1' + close_tag)\<close> for a non-empty delimiter: the
  matcher tries each position from left to right; where it matches, the replacement is
  written and matching goes on behind the match, elsewhere the character is copied.
\<close>

function replace_delimited :: "string \<Rightarrow> string \<Rightarrow> string \<Rightarrow> string \<Rightarrow> string" where
  "replace_delimited d open_tag close_tag [] = []"
| "replace_delimited d open_tag close_tag (c # cs) =
     (if d \<noteq> [] \<and> startsWith (c # cs) d then
        (case find_close d (drop (length d) (c # cs)) of
           Some (inner, rest) \<Rightarrow> open_tag @ inner @ close_tag @ replace_delimited d open_tag close_tag rest
         | None \<Rightarrow> c # replace_delimited d open_tag close_tag cs)
      else c # replace_delimited d open_tag close_tag cs)"
  by pat_completeness auto
termination
proof (relation "measure (\<lambda>(d, open_tag, close_tag, s). length s)")
  show "wf (measure (\<lambda>(d, open_tag, close_tag, s). length s))"
    by simp
next
  fix d open_tag close_tag :: string and c cs x2 inner rest
  assume "d \<noteq> [] \<and> startsWith (c # cs) d"
    and "find_close d (drop (length d) (c # cs)) = Some x2" and "(inner, rest) = x2"
  then have "length rest \<le> length (drop (length d) (c # cs))" and "d \<noteq> []"
    using find_close_length [of d "drop (length d) (c # cs)" inner rest] by auto
  then show "((d, open_tag, close_tag, rest), d, open_tag, close_tag, c # cs)
      \<in> measure (\<lambda>(d, open_tag, close_tag, s). length s)"
    by (cases d) simp_all
qed simp_all

text \<open>\<open>s.replace(/\n/g, '<br />')\<close>\<close>

definition replace_newlines :: "string \<Rightarrow> string" where
  "replace_newlines s = concat (map (\<lambda>c. if c = newline then ''<br />'' else [c]) s)"

definition formatContent :: "string \<Rightarrow> string" where
  \<open>formatContent content =
     replace_newlines
       (replace_delimited ''`'' ''<code class="bg-muted px-1 py-0.5 rounded text-sm">'' ''</code>''
         (replace_delimited ''*'' ''<em>'' ''</em>''
           (replace_delimited ''**'' ''<strong>'' ''</strong>'' content)))\<close>

lemma replace_delimited_plain:
  "d \<noteq> [] \<Longrightarrow> hd d \<notin> set s \<Longrightarrow> replace_delimited d open_tag close_tag s = s"
proof (induction s)
  case Nil
  then show ?case by simp
next
  case (Cons c cs)
  then have "\<not> startsWith (c # cs) d"
    by (cases d) (auto simp: startsWith_def)
  with Cons show ?case by simp
qed

lemma replace_newlines_plain: "newline \<notin> set s \<Longrightarrow> replace_newlines s = s"
  by (induction s) (auto simp: replace_newlines_def)

text \<open>
  Claim C10. On a content that holds no asterisk, no backtick and no line feed,
  \<open>formatContent\<close> returns the content unchanged. \<open>formatContent\<close> is a function of its
  argument alone: the same content always gives the same result.
\<close>

theorem formatContent_plain:
  assumes "CHR ''*'' \<notin> set content" and "CHR ''`'' \<notin> set content" and "newline \<notin> set content"
  shows "formatContent content = content"
  using assms by (simp add: formatContent_def replace_delimited_plain replace_newlines_plain)

theorem formatContent_plain_witness:
  "CHR ''*'' \<notin> set ''What is <b>x</b> & y_z?'' \<and> CHR ''`'' \<notin> set ''What is <b>x</b> & y_z?''
   \<and> newline \<notin> set ''What is <b>x</b> & y_z?''
   \<and> formatContent ''What is <b>x</b> & y_z?'' = ''What is <b>x</b> & y_z?''"
  using formatContent_plain [of "''What is <b>x</b> & y_z?''"]
  by (simp add: newline_def)

text \<open>On marked-up text the replacements do act.\<close>

lemma formatContent_example:
  "formatContent ''a **b** *c* d'' = ''a <strong>b</strong> <em>c</em> d''"
  by (simp add: formatContent_def startsWith_def line_terminator_def replace_newlines_def newline_def)

section \<open>The upload dropzone (frontend/src/components/FileDropzone.jsx)\<close>

text \<open>
  A browser \<open>File\<close>, as far as the dropzone looks at it: its name, its media type
  (\<open>file.type\<close>, the empty string when the browser knows none) and its size in bytes.
\<close>

record browser_file =
  file_name :: string
  file_type :: string
  file_size :: nat

text \<open>The object \<open>ALLOWED_TYPES\<close>, its own keys and values in the order of the source.\<close>

definition ALLOWED_TYPES :: "(string \<times> string) list" where
  "ALLOWED_TYPES =
     [(''application/pdf'', ''.pdf''),
      (''application/vnd.openxmlformats-officedocument.wordprocessingml.document'', ''.docx''),
      (''text/plain'', ''.txt''),
      (''application/vnd.openxmlformats-officedocument.presentationml.presentation'', ''.pptx''),
      (''text/csv'', ''.csv''),
      (''application/vnd.ms-excel'', ''.csv''),
      (''application/vnd.openxmlformats-officedocument.spreadsheetml.sheet'', ''.csv'')]"

definition MAX_FILE_SIZE :: nat where
  "MAX_FILE_SIZE = 20 * 1024 * 1024"

text \<open>
  \<open>toLowerCase\<close> on one-byte characters: the letters A to Z and the accented capital
  letters of Latin-1 move up by 32; the length of the string stays. (File names are
  modelled within these characters.)
\<close>

definition lower_char :: "char \<Rightarrow> char" where
  "lower_char c =
     (let n = (of_char c :: nat) in
      if (65 \<le> n \<and> n \<le> 90) \<or> (192 \<le> n \<and> n \<le> 222 \<and> n \<noteq> 215)
      then char_of (n + 32) else c)"

definition toLowerCase :: "string \<Rightarrow> string" where
  "toLowerCase s = map lower_char s"

text \<open>\<open>s.lastIndexOf(c)\<close>: the last position of \<open>c\<close>, or -1.\<close>

fun last_index_from :: "char \<Rightarrow> string \<Rightarrow> nat \<Rightarrow> int \<Rightarrow> int" where
  "last_index_from c [] i found = found"
| "last_index_from c (x # xs) i found =
     last_index_from c xs (i + 1) (if x = c then int i else found)"

definition lastIndexOf :: "string \<Rightarrow> char \<Rightarrow> int" where
  "lastIndexOf s c = last_index_from c s 0 (- 1)"

text \<open>\<open>s.slice(start)\<close>: a negative start counts from the end of the string.\<close>

definition slice :: "string \<Rightarrow> int \<Rightarrow> string" where
  "slice s start =
     (if start < 0 then drop (nat (int (length s) + start)) s else drop (nat start) s)"

text \<open>
  \<open>ALLOWED_TYPES\<close> is a plain object literal, so \<open>ALLOWED_TYPES[file.type]\<close> finds an
  own key first and otherwise a property inherited from \<open>Object.prototype\<close>. The own
  values are strings, truthy when non-empty; the inherited ones are functions (and the
  prototype object itself for \<open>__proto__\<close>), all truthy.
\<close>

definition Object_prototype_properties :: "string list" where
  "Object_prototype_properties =
     [''constructor'', ''__defineGetter__'', ''__defineSetter__'', ''hasOwnProperty'',
      ''__lookupGetter__'', ''__lookupSetter__'', ''isPrototypeOf'', ''propertyIsEnumerable'',
      ''toString'', ''valueOf'', ''__proto__'', ''toLocaleString'']"

definition type_allowed :: "browser_file \<Rightarrow> bool" where
  "type_allowed f =
     (case map_of ALLOWED_TYPES (file_type f) of
        Some ext \<Rightarrow> ext \<noteq> []
      | None \<Rightarrow> file_type f \<in> set Object_prototype_properties)"

definition extension :: "browser_file \<Rightarrow> string" where
  "extension f = slice (toLowerCase (file_name f)) (lastIndexOf (file_name f) CHR ''.'')"

definition extension_allowed :: "browser_file \<Rightarrow> bool" where
  "extension_allowed f = (extension f \<in> set (map snd ALLOWED_TYPES))"

definition validateFile :: "browser_file \<Rightarrow> string list" where
  "validateFile f =
     (let errors = [];
          errors = (if \<not> type_allowed f \<and> \<not> extension_allowed f
                    then errors @ [file_name f @ '': Unsupported file type. Allowed: PDF, DOCX, TXT, PPTX, CSV'']
                    else errors);
          errors = (if file_size f > MAX_FILE_SIZE
                    then errors @ [file_name f @ '': File too large. Maximum size: 20MB'']
                    else errors)
      in errors)"

text \<open>
  The state of the component that \<open>handleFiles\<close> writes, with the list of the calls of
  the \<open>onFilesSelected\<close> property made so far.
\<close>

record dropzone =
  selectedFiles :: "browser_file list"
  errors :: "string list"
  onFilesSelected_calls :: "browser_file list list"

text \<open>The \<open>forEach\<close> of \<open>handleFiles\<close>, on the pair \<open>(allErrors, validFiles)\<close>.\<close>

fun each_file :: "browser_file list \<Rightarrow> string list \<times> browser_file list \<Rightarrow> string list \<times> browser_file list" where
  "each_file [] acc = acc"
| "each_file (f # fs) (allErrors, validFiles) =
     (let fileErrors = validateFile f in
      if length fileErrors > 0
      then each_file fs (allErrors @ fileErrors, validFiles)
      else each_file fs (allErrors, validFiles @ [f]))"

definition handleFiles :: "browser_file list \<Rightarrow> dropzone \<Rightarrow> dropzone" where
  "handleFiles files st =
     (let (allErrors, validFiles) = each_file files ([], []);
          st1 = st\<lparr>errors := allErrors\<rparr>
      in if length validFiles > 0
         then st1\<lparr>selectedFiles := validFiles,
                  onFilesSelected_calls := onFilesSelected_calls st1 @ [validFiles]\<rparr>
         else st1)"

text \<open>
  A file is accepted when \<open>validateFile\<close> finds no error. \<open>allowed_extensions\<close> are
  the values of \<open>ALLOWED_TYPES\<close> and \<open>allowed_media_types\<close> its keys.
\<close>

definition accepted :: "browser_file \<Rightarrow> bool" where
  "accepted f = (validateFile f = [])"

definition allowed_extensions :: "string set" where
  "allowed_extensions = {''.pdf'', ''.docx'', ''.txt'', ''.pptx'', ''.csv''}"

definition allowed_media_types :: "string set" where
  "allowed_media_types =
     {''application/pdf'',
      ''application/vnd.openxmlformats-officedocument.wordprocessingml.document'',
      ''text/plain'',
      ''application/vnd.openxmlformats-officedocument.presentationml.presentation'',
      ''text/csv'',
      ''application/vnd.ms-excel'',
      ''application/vnd.openxmlformats-officedocument.spreadsheetml.sheet''}"

text \<open>
  The reading of the allowed set as the five formats PDF, DOCX, TXT, PPTX and CSV alone:
  a file is supported when its media type is that of one of the five or its extension
  is one of the five. It is compared with \<open>validateFile\<close> below.
\<close>

definition claimed_supported :: "browser_file \<Rightarrow> bool" where
  "claimed_supported f =
     (file_type f \<in> {''application/pdf'',
                      ''application/vnd.openxmlformats-officedocument.wordprocessingml.document'',
                      ''text/plain'',
                      ''application/vnd.openxmlformats-officedocument.presentationml.presentation'',
                      ''text/csv''}
      \<or> extension f \<in> allowed_extensions)"

text \<open>
  The component before any file is offered, and three files: a text file of exactly
  20 MB whose media type the browser does not know, an executable one byte larger, and
  a small Excel workbook.
\<close>

definition dropzone_initial :: dropzone where
  "dropzone_initial = \<lparr>selectedFiles = [], errors = [], onFilesSelected_calls = []\<rparr>"

definition notes_txt :: browser_file where
  "notes_txt = \<lparr>file_name = ''Notes.TXT'', file_type = [], file_size = 20 * 1024 * 1024\<rparr>"

definition setup_exe :: browser_file where
  "setup_exe = \<lparr>file_name = ''setup.exe'', file_type = ''application/x-msdownload'',
                 file_size = 20 * 1024 * 1024 + 1\<rparr>"

definition book_xlsx :: browser_file where
  "book_xlsx = \<lparr>file_name = ''book.xlsx'',
                 file_type = ''application/vnd.openxmlformats-officedocument.spreadsheetml.sheet'',
                 file_size = 4096\<rparr>"

lemma allowed_values: "set (map snd ALLOWED_TYPES) = allowed_extensions"
  by (auto simp: ALLOWED_TYPES_def allowed_extensions_def)

lemma allowed_keys: "map_of ALLOWED_TYPES t \<noteq> None \<longleftrightarrow> t \<in> allowed_media_types"
  by (simp add: ALLOWED_TYPES_def allowed_media_types_def)

lemma allowed_truthy: "map_of ALLOWED_TYPES t = Some ext \<Longrightarrow> ext \<noteq> []"
  by (auto simp: ALLOWED_TYPES_def split: if_splits)

lemma type_allowed_iff:
  "type_allowed f \<longleftrightarrow>
     file_type f \<in> allowed_media_types \<or> file_type f \<in> set Object_prototype_properties"
proof (cases "map_of ALLOWED_TYPES (file_type f)")
  case None
  then show ?thesis
    using allowed_keys [of "file_type f"] by (simp add: type_allowed_def)
next
  case (Some ext)
  then show ?thesis
    using allowed_keys [of "file_type f"] allowed_truthy [OF Some] by (simp add: type_allowed_def)
qed

lemma validateFile_nonempty:
  "validateFile f \<noteq> [] \<longleftrightarrow>
     (\<not> type_allowed f \<and> extension f \<notin> allowed_extensions) \<or> file_size f > 20 * 1024 * 1024"
  using allowed_values by (auto simp: validateFile_def extension_allowed_def MAX_FILE_SIZE_def)

lemma each_file_eq:
  "each_file fs (es, vs) = (es @ concat (map validateFile fs), vs @ filter accepted fs)"
  by (induction fs arbitrary: es vs) (auto simp: accepted_def Let_def)

lemma handleFiles_eq:
  "handleFiles files st =
     (if filter accepted files = [] then st\<lparr>errors := concat (map validateFile files)\<rparr>
      else st\<lparr>errors := concat (map validateFile files),
               selectedFiles := filter accepted files,
               onFilesSelected_calls := onFilesSelected_calls st @ [filter accepted files]\<rparr>)"
  by (simp add: handleFiles_def each_file_eq)

text \<open>
  Claim C4, as amended. Let the file's \<open>type\<close> be a media type or empty, not the name of a
  property that every object inherits. Then \<open>validateFile\<close> returns a non-empty error
  list if and only if the file is unsupported or its size exceeds 20 * 1024 * 1024
  bytes, where a file is unsupported when its media type is none of the seven keys of
  \<open>ALLOWED_TYPES\<close> (those of PDF, DOCX, TXT, PPTX and CSV and the two Excel types) and
  the text \<open>name.toLowerCase().slice(name.lastIndexOf('.'))\<close> is none of .pdf, .docx,
  .txt, .pptx, .csv; a supported file of exactly that size is accepted. For every list
  of files, \<open>handleFiles\<close> records the errors of all files, one or two entries for each
  rejected file (one for each failed check), and passes exactly the accepted files, in
  their order, to \<open>onFilesSelected\<close> when there is at least one; otherwise it does not
  call it.
\<close>

theorem validateFile_handleFiles:
  assumes "file_type f \<notin> set Object_prototype_properties"
  shows "(validateFile f \<noteq> [] \<longleftrightarrow>
            (file_type f \<notin> allowed_media_types \<and> extension f \<notin> allowed_extensions)
            \<or> file_size f > 20 * 1024 * 1024)
   \<and> ((file_type f \<in> allowed_media_types \<or> extension f \<in> allowed_extensions)
        \<and> file_size f = 20 * 1024 * 1024 \<longrightarrow> validateFile f = [])
   \<and> errors (handleFiles files st) = concat (map validateFile files)
   \<and> (\<forall>g \<in> set files. validateFile g \<noteq> [] \<longrightarrow>
          length (validateFile g) = 1 \<or> length (validateFile g) = 2)
   \<and> onFilesSelected_calls (handleFiles files st) =
       (if filter accepted files = [] then onFilesSelected_calls st
        else onFilesSelected_calls st @ [filter accepted files])
   \<and> (\<forall>g. g \<in> set (filter accepted files) \<longleftrightarrow> g \<in> set files \<and> validateFile g = [])"
proof (intro conjI)
  have ty: "type_allowed f \<longleftrightarrow> file_type f \<in> allowed_media_types"
    using assms by (simp add: type_allowed_iff)
  show iff: "validateFile f \<noteq> [] \<longleftrightarrow>
      (file_type f \<notin> allowed_media_types \<and> extension f \<notin> allowed_extensions)
      \<or> file_size f > 20 * 1024 * 1024"
    using validateFile_nonempty [of f] ty by simp
  show "(file_type f \<in> allowed_media_types \<or> extension f \<in> allowed_extensions)
        \<and> file_size f = 20 * 1024 * 1024 \<longrightarrow> validateFile f = []"
    using iff by auto
  show "errors (handleFiles files st) = concat (map validateFile files)"
    by (simp add: handleFiles_eq)
  show "\<forall>g \<in> set files. validateFile g \<noteq> [] \<longrightarrow>
          length (validateFile g) = 1 \<or> length (validateFile g) = 2"
    by (simp add: validateFile_def)
  show "onFilesSelected_calls (handleFiles files st) =
       (if filter accepted files = [] then onFilesSelected_calls st
        else onFilesSelected_calls st @ [filter accepted files])"
    by (simp add: handleFiles_eq)
  show "\<forall>g. g \<in> set (filter accepted files) \<longleftrightarrow> g \<in> set files \<and> validateFile g = []"
    by (auto simp: accepted_def)
qed

lemma extension_notes_txt: "extension notes_txt = ''.txt''"
  by (simp add: extension_def notes_txt_def slice_def lastIndexOf_def toLowerCase_def
      lower_char_def char_of_def bit_0)

lemma extension_setup_exe: "extension setup_exe = ''.exe''"
  by (simp add: extension_def setup_exe_def slice_def lastIndexOf_def toLowerCase_def
      lower_char_def char_of_def bit_0)

lemma extension_book_xlsx: "extension book_xlsx = ''.xlsx''"
  by (simp add: extension_def book_xlsx_def slice_def lastIndexOf_def toLowerCase_def
      lower_char_def char_of_def bit_0)

lemma validateFile_setup_exe:
  "validateFile setup_exe =
     [''setup.exe: Unsupported file type. Allowed: PDF, DOCX, TXT, PPTX, CSV'',
      ''setup.exe: File too large. Maximum size: 20MB'']"
proof -
  have "\<not> type_allowed setup_exe"
    by (simp add: type_allowed_def ALLOWED_TYPES_def Object_prototype_properties_def setup_exe_def)
  moreover have "\<not> extension_allowed setup_exe"
    by (simp add: extension_allowed_def extension_setup_exe ALLOWED_TYPES_def)
  moreover have "file_size setup_exe > MAX_FILE_SIZE" "file_name setup_exe = ''setup.exe''"
    by (simp_all add: setup_exe_def MAX_FILE_SIZE_def)
  ultimately show ?thesis
    by (simp add: validateFile_def)
qed

lemma validateFile_book_xlsx: "validateFile book_xlsx = []"
proof -
  have "type_allowed book_xlsx"
    by (simp add: type_allowed_def ALLOWED_TYPES_def book_xlsx_def)
  moreover have "\<not> file_size book_xlsx > MAX_FILE_SIZE"
    by (simp add: book_xlsx_def MAX_FILE_SIZE_def)
  ultimately show ?thesis
    by (simp add: validateFile_def)
qed

text \<open>
  A type that names an inherited property passes the type check, whatever the file is.
\<close>

lemma validateFile_inherited_property:
  "validateFile \<lparr>file_name = ''setup.exe'', file_type = ''constructor'', file_size = 1\<rparr> = []"
  by (simp add: validateFile_def type_allowed_def ALLOWED_TYPES_def Object_prototype_properties_def
      MAX_FILE_SIZE_def)

theorem validateFile_handleFiles_witness:
  "file_type notes_txt \<notin> set Object_prototype_properties
   \<and> extension notes_txt \<in> allowed_extensions \<and> file_size notes_txt = 20 * 1024 * 1024
   \<and> validateFile notes_txt = []
   \<and> validateFile setup_exe \<noteq> [] \<and> length (validateFile setup_exe) = 2
   \<and> onFilesSelected_calls (handleFiles [setup_exe, notes_txt] dropzone_initial) = [[notes_txt]]
   \<and> length (errors (handleFiles [setup_exe, notes_txt] dropzone_initial)) = 2"
proof -
  have ty: "file_type notes_txt \<notin> set Object_prototype_properties"
    by (simp add: notes_txt_def Object_prototype_properties_def)
  note inst = validateFile_handleFiles [OF ty, of "[setup_exe, notes_txt]" dropzone_initial]
  have ext: "extension notes_txt \<in> allowed_extensions"
    by (simp add: extension_notes_txt allowed_extensions_def)
  have size: "file_size notes_txt = 20 * 1024 * 1024"
    by (simp add: notes_txt_def)
  have ok: "validateFile notes_txt = []"
    using inst ext size by blast
  have bad: "validateFile setup_exe \<noteq> []" and two: "length (validateFile setup_exe) = 2"
    by (simp_all add: validateFile_setup_exe)
  have acc: "filter accepted [setup_exe, notes_txt] = [notes_txt]"
    using ok bad by (simp add: accepted_def)
  have "onFilesSelected_calls (handleFiles [setup_exe, notes_txt] dropzone_initial) = [[notes_txt]]"
    using inst acc by (simp add: dropzone_initial_def)
  moreover have "errors (handleFiles [setup_exe, notes_txt] dropzone_initial) = validateFile setup_exe"
    using inst ok by simp
  ultimately show ?thesis
    using ty ext size ok bad two by simp
qed

text \<open>
  Claim C4 as stated fails in two places. An Excel workbook with its usual media type
  lies outside the set of PDF, DOCX, TXT, PPTX and CSV by type and by extension and is
  within the size limit, yet \<open>validateFile\<close> accepts it, the media type being a key of
  \<open>ALLOWED_TYPES\<close>. And one file that is both unsupported and too large is one rejected
  file with two error entries, for which \<open>onFilesSelected\<close> is not called.
\<close>

theorem handleFiles_error_entries_counterexample:
  "\<not> claimed_supported book_xlsx \<and> file_size book_xlsx \<le> 20 * 1024 * 1024
   \<and> validateFile book_xlsx = []
   \<and> \<not> accepted setup_exe
   \<and> length (errors (handleFiles [setup_exe] dropzone_initial)) = 2
   \<and> onFilesSelected_calls (handleFiles [setup_exe] dropzone_initial) = []"
proof -
  have "extension book_xlsx \<notin> allowed_extensions"
    by (simp add: extension_book_xlsx allowed_extensions_def)
  moreover have "file_type book_xlsx = ''application/vnd.openxmlformats-officedocument.spreadsheetml.sheet''"
    by (simp add: book_xlsx_def)
  ultimately have "\<not> claimed_supported book_xlsx"
    by (simp add: claimed_supported_def)
  moreover have "file_size book_xlsx \<le> 20 * 1024 * 1024"
    by (simp add: book_xlsx_def)
  ultimately show ?thesis
    by (simp add: validateFile_book_xlsx handleFiles_def accepted_def validateFile_setup_exe
        dropzone_initial_def)
qed

section \<open>The upload response (frontend/src/utils/api.js and the upload endpoint)\<close>



text \<open>
  Modelled from the spec: the upload endpoint and the document processor behind it are
  backend code, which is not among the sources. The document processor ingests each
  file of the batch (parse, split, embed, store); a file either ingests fully or fails
  with \<open>UnsupportedFormat\<close>, \<open>ParseFailure\<close>, \<open>EmbeddingServiceError\<close> or
  \<open>StoreWriteError\<close>. The outcomes are collected in the order in which the files were
  submitted. The batch succeeds if at least one file ingests, and the response
  \<open>{kbId, fileNames[], perFileStatus[], message}\<close> then enumerates which files succeeded
  and which failed, and why; if no file ingests, no knowledge base is created and the
  batch fails with \<open>IngestionFailed\<close>. The ingestion of one file, the identifier of the
  knowledge base and the text of the message are parameters.
\<close>

datatype ingest_error = UnsupportedFormat | ParseFailure | EmbeddingServiceError | StoreWriteError

datatype file_status = Succeeded | Failed ingest_error


fun process_batch ::
  "(browser_file \<Rightarrow> ingest_error option) \<Rightarrow> browser_file list \<Rightarrow> (string \<times> file_status) list" where
  "process_batch ingest [] = []"
| "process_batch ingest (f # fs) =
     (file_name f, case ingest f of None \<Rightarrow> Succeeded | Some e \<Rightarrow> Failed e)
       # process_batch ingest fs"





lemma process_batch_length: "length (process_batch ingest files) = length files"
  by (induction files) simp_all





section \<open>The streaming chat client (frontend/src/utils/api.js)\<close>

text \<open>
  What \<open>fetch\<close> can come back with: the promise rejects; the response is not \<open>ok\<close>
  and its JSON body has a \<open>detail\<close> field or not; the response has no body to read;
  or the body is a stream that delivers decoded text in pieces and then either ends or
  fails with an error.
\<close>

datatype read_end = Eof | ReadError string

datatype response =
    FetchRejects string
  | NotOk "string option"
  | NoBody
  | Body "string list" read_end

record chat_request =
  req_kbId :: string
  req_message :: string
  req_temperature :: rat

text \<open>
  A parsed SSE frame. \<open>JSON.parse\<close> is a built-in and enters as the parameter
  \<open>parse\<close>: \<open>None\<close> stands for a text on which \<open>JSON.parse\<close> throws or yields
  \<open>null\<close> (reading \<open>parsed.type\<close> then throws), \<open>Some f\<close> for a value whose \<open>type\<close>
  and \<open>content\<close> properties are strings where they are present.
\<close>

record frame =
  frame_type :: "string option"
  frame_content :: "string option"

datatype outcome = Resolved | Rejected string

text \<open>
  How a block of statements ends: it falls through, returns, or throws an error with a
  message. Each carries the state reached, since what \<open>onChunk\<close> has done before a
  throw stays done.
\<close>

datatype 's completion = Normal 's | Returned 's | Thrown string 's

text \<open>The body of the inner \<open>try\<close>, for one \<open>data\<close> payload.\<close>

definition try_frame ::
  "(string \<Rightarrow> frame option) \<Rightarrow> (string \<Rightarrow> 's \<Rightarrow> 's) \<Rightarrow> string \<Rightarrow> 's \<Rightarrow> 's completion" where
  "try_frame parse onChunk data s =
     (case parse data of
        None \<Rightarrow> Thrown ''SyntaxError'' s
      | Some parsed \<Rightarrow>
          if frame_type parsed = Some ''start'' then Normal s
          else if frame_type parsed = Some ''end'' then Normal s
          else if frame_type parsed = Some ''error''
            then Thrown (case frame_content parsed of Some c \<Rightarrow> c | None \<Rightarrow> []) s
          else if frame_type parsed = Some ''done'' then Returned s
          else (case frame_content parsed of
                  Some c \<Rightarrow> if c \<noteq> [] then Normal (onChunk c s) else Normal s
                | None \<Rightarrow> Normal s))"

text \<open>
  One iteration of \<open>for (const line of lines)\<close>. The \<open>catch (parseError)\<close> clause
  encloses the whole \<open>try\<close> body: whatever is thrown there is logged with
  \<open>console.warn\<close> and the loop goes on with the next line.
\<close>

definition process_line ::
  "(string \<Rightarrow> frame option) \<Rightarrow> (string \<Rightarrow> 's \<Rightarrow> 's) \<Rightarrow> string \<Rightarrow> 's \<Rightarrow> 's completion" where
  "process_line parse onChunk line s =
     (if startsWith line ''data: '' then
        (let data = drop 6 line in
         if trim data = [] then Normal s
         else (case try_frame parse onChunk data s of
                 Thrown parseError s' \<Rightarrow> Normal s'
               | c \<Rightarrow> c))
      else Normal s)"

fun process_lines ::
  "(string \<Rightarrow> frame option) \<Rightarrow> (string \<Rightarrow> 's \<Rightarrow> 's) \<Rightarrow> string list \<Rightarrow> 's \<Rightarrow> 's completion" where
  "process_lines parse onChunk [] s = Normal s"
| "process_lines parse onChunk (line # lines) s =
     (case process_line parse onChunk line s of
        Normal s' \<Rightarrow> process_lines parse onChunk lines s'
      | c \<Rightarrow> c)"

text \<open>
  The \<open>while (true)\<close> loop over \<open>reader.read()\<close>. Each piece is appended to the
  buffer, the buffer is split at line feeds, the last (incomplete) piece stays in the
  buffer (\<open>lines.pop() || ''\<close> is that piece, a string) and the others are
  processed. The loop is left when the stream is done, when a \<open>done\<close> frame returns
  from the function, or when \<open>read\<close> fails.
\<close>

fun read_loop ::
  "(string \<Rightarrow> frame option) \<Rightarrow> (string \<Rightarrow> 's \<Rightarrow> 's) \<Rightarrow> string list \<Rightarrow> read_end \<Rightarrow> string \<Rightarrow> 's
     \<Rightarrow> 's completion" where
  "read_loop parse onChunk [] Eof buffer s = Normal s"
| "read_loop parse onChunk [] (ReadError m) buffer s = Thrown m s"
| "read_loop parse onChunk (v # reads) e buffer s =
     (let lines = split_nl (buffer @ v) in
      case process_lines parse onChunk (butlast lines) s of
        Normal s' \<Rightarrow> read_loop parse onChunk reads e (last lines) s'
      | c \<Rightarrow> c)"

definition default_temperature :: rat where
  "default_temperature = 7 / 10"

definition chat_body :: "string \<Rightarrow> string \<Rightarrow> rat option \<Rightarrow> chat_request" where
  "chat_body kbId message temperature =
     \<lparr>req_kbId = kbId, req_message = message,
      req_temperature = (case temperature of None \<Rightarrow> default_temperature | Some t \<Rightarrow> t)\<rparr>"

text \<open>
  \<open>sendChatMessage(kbId, message, temperature = 0.7, onChunk)\<close>. The result is the
  request that was handed to \<open>fetch\<close>, the state the \<open>onChunk\<close> calls have built, and
  how the returned promise settles. The outer \<open>catch\<close> rethrows every error as
  \<open>new Error(error.message || 'Chat failed')\<close>.
\<close>

definition sendChatMessage ::
  "(chat_request \<Rightarrow> response) \<Rightarrow> (string \<Rightarrow> frame option) \<Rightarrow> string \<Rightarrow> string \<Rightarrow> rat option
     \<Rightarrow> (string \<Rightarrow> 's \<Rightarrow> 's) \<Rightarrow> 's \<Rightarrow> chat_request \<times> 's \<times> outcome" where
  "sendChatMessage fetch parse kbId message temperature onChunk s =
     (let request = chat_body kbId message temperature in
      case fetch request of
        FetchRejects m \<Rightarrow> (request, s, Rejected (or_default m ''Chat failed''))
      | NotOk detail \<Rightarrow>
          (request, s,
           Rejected (or_default
             (or_default (case detail of Some d \<Rightarrow> d | None \<Rightarrow> []) ''Chat request failed'')
             ''Chat failed''))
      | NoBody \<Rightarrow> (request, s, Rejected ''Streaming not supported'')
      | Body reads e \<Rightarrow>
          (case read_loop parse onChunk reads e [] s of
             Normal s' \<Rightarrow> (request, s', Resolved)
           | Returned s' \<Rightarrow> (request, s', Resolved)
           | Thrown m s' \<Rightarrow> (request, s', Rejected (or_default m ''Chat failed''))))"

section \<open>The chat hook (useChat)\<close>

text \<open>
  A chat message as the hook builds it. The \<open>id\<close> and \<open>timestamp\<close> fields are read
  from the clock and are left out; \<open>isError\<close> is false where the object has no such
  field.
\<close>

record message =
  content :: string
  role :: string
  sources :: "string list"
  isError :: bool

record chat_state =
  messages :: "message list"
  isLoading :: bool
  streamingMessage :: string

definition addMessage :: "message \<Rightarrow> chat_state \<Rightarrow> chat_state" where
  "addMessage m st = st\<lparr>messages := messages st @ [m]\<rparr>"

text \<open>\<open>!kbId\<close>: the id is undefined or the empty string.\<close>

definition no_kb :: "string option \<Rightarrow> bool" where
  "no_kb kbId = (case kbId of None \<Rightarrow> True | Some k \<Rightarrow> k = [])"

definition error_text :: string where
  "error_text =
     ''Sorry, I encountered an error while processing your message. Please try again.''"

text \<open>
  The \<open>onChunk\<close> callback of \<open>sendMessage\<close>: the state it works on is the local
  variable \<open>assistantContent\<close> together with the hook state.
\<close>

definition on_chunk :: "string \<Rightarrow> string \<times> chat_state \<Rightarrow> string \<times> chat_state" where
  "on_chunk chunk = (\<lambda>(assistantContent, st).
     (assistantContent @ chunk, st\<lparr>streamingMessage := assistantContent @ chunk\<rparr>))"

text \<open>
  \<open>sendMessage(content, temperature = 0.7)\<close> of the hook \<open>useChat(kbId)\<close>, run until
  its promise settles. The result is the hook state and the list of chat requests that
  were issued. The toast and the scrolling are effects outside the hook state.
\<close>

definition sendMessage ::
  "(chat_request \<Rightarrow> response) \<Rightarrow> (string \<Rightarrow> frame option) \<Rightarrow> string option \<Rightarrow> string
     \<Rightarrow> rat option \<Rightarrow> chat_state \<Rightarrow> chat_state \<times> chat_request list" where
  "sendMessage fetch parse kbId content' temperature st =
     (if trim content' = [] \<or> no_kb kbId then (st, [])
      else
        let userMessage = \<lparr>content = trim content', role = ''user'', sources = [], isError = False\<rparr>;
            st1 = addMessage userMessage st;
            st2 = st1\<lparr>isLoading := True\<rparr>;
            st3 = st2\<lparr>streamingMessage := []\<rparr>;
            t = (case temperature of None \<Rightarrow> default_temperature | Some t \<Rightarrow> t)
        in case sendChatMessage fetch parse (the kbId) content' (Some t) on_chunk ([], st3) of
             (request, (assistantContent, st4), Resolved) \<Rightarrow>
               let assistantMessage =
                     \<lparr>content = assistantContent, role = ''assistant'', sources = [], isError = False\<rparr>;
                   st5 = st4\<lparr>messages := messages st4 @ [assistantMessage]\<rparr>;
                   st6 = st5\<lparr>streamingMessage := []\<rparr>
               in (st6\<lparr>isLoading := False\<rparr>, [request])
           | (request, (assistantContent, st4), Rejected m) \<Rightarrow>
               let errorMessage =
                     \<lparr>content = error_text, role = ''assistant'', sources = [], isError = True\<rparr>;
                   st5 = addMessage errorMessage st4
               in (st5\<lparr>isLoading := False\<rparr>, [request]))"

text \<open>What the loop does when no piece is left to read.\<close>

definition stream_end :: "read_end \<Rightarrow> 's \<Rightarrow> 's completion" where
  "stream_end e s = (case e of Eof \<Rightarrow> Normal s | ReadError m \<Rightarrow> Thrown m s)"

text \<open>
  The wire format of the chat stream: each frame is sent as one line \<open>data: <payload>\<close>,
  closed by a line feed and followed by \<open>k\<close> empty lines (the server sends
  \<open>data: ...\n\n\<close>, one empty line). \<open>sse_lines\<close> are the lines such an event splits
  into.
\<close>

definition data_line :: "string \<Rightarrow> string" where
  "data_line payload = ''data: '' @ payload"

definition sse_event :: "nat \<times> string \<Rightarrow> string" where
  "sse_event = (\<lambda>(k, payload). data_line payload @ replicate (Suc k) newline)"

definition sse_lines :: "nat \<times> string \<Rightarrow> string list" where
  "sse_lines = (\<lambda>(k, payload). data_line payload # replicate k [])"

text \<open>
  The frames the client treats specially, and the contents it hands to \<open>onChunk\<close> for a
  list of frames: those of the frames before the first \<open>done\<close> frame that are not
  control frames and carry a non-empty content, in the order of the frames.
\<close>

definition is_done :: "frame \<Rightarrow> bool" where
  "is_done f = (frame_type f = Some ''done'')"

definition is_control :: "frame \<Rightarrow> bool" where
  "is_control f = (frame_type f \<in> {Some ''start'', Some ''end'', Some ''error'', Some ''done''})"

definition forwarded :: "frame list \<Rightarrow> string list" where
  "forwarded frames =
     concat (map (\<lambda>f. case frame_content f of
                         Some c \<Rightarrow> if c \<noteq> [] \<and> \<not> is_control f then [c] else []
                       | None \<Rightarrow> [])
                 (takeWhile (\<lambda>f. \<not> is_done f) frames))"

text \<open>
  Concrete collaborators for running the client: a \<open>fetch\<close> that answers every request
  with one given response, an \<open>onChunk\<close> that records its arguments, and the value of
  \<open>JSON.parse\<close> on a few frame texts (every other text counts as unparsable).
\<close>

definition respond_with :: "response \<Rightarrow> chat_request \<Rightarrow> response" where
  "respond_with r request = r"

definition log_chunk :: "string \<Rightarrow> string list \<Rightarrow> string list" where
  "log_chunk chunk calls = calls @ [chunk]"

definition sample_parse :: "string \<Rightarrow> frame option" where
  \<open>sample_parse = map_of
     [(''{"type":"start"}'', \<lparr>frame_type = Some ''start'', frame_content = None\<rparr>),
      (''{"type":"start","content":"hi"}'', \<lparr>frame_type = Some ''start'', frame_content = Some ''hi''\<rparr>),
      (''{"type":"content","content":"Hel"}'', \<lparr>frame_type = Some ''content'', frame_content = Some ''Hel''\<rparr>),
      (''{"type":"content","content":"lo"}'', \<lparr>frame_type = Some ''content'', frame_content = Some ''lo''\<rparr>),
      (''{"type":"error","content":"boom"}'', \<lparr>frame_type = Some ''error'', frame_content = Some ''boom''\<rparr>),
      (''{"type":"done"}'', \<lparr>frame_type = Some ''done'', frame_content = None\<rparr>)]\<close>

text \<open>
  The reading of the stream protocol in which only the terminal frame types \<open>done\<close> and
  \<open>error\<close> keep a content from being forwarded; it is compared with the client below.
\<close>

definition claimed_forwarded :: "frame list \<Rightarrow> string list" where
  "claimed_forwarded frames =
     concat (map (\<lambda>f. case frame_content f of
                         Some c \<Rightarrow> if c \<noteq> [] \<and> frame_type f \<notin> {Some ''done'', Some ''error''}
                                   then [c] else []
                       | None \<Rightarrow> [])
                 (takeWhile (\<lambda>f. \<not> is_done f) frames))"

text \<open>
  How the promise settles once the lines are processed: a \<open>done\<close> frame resolves it at
  once, otherwise the end of the stream decides.
\<close>

definition settle :: "bool \<Rightarrow> read_end \<Rightarrow> outcome" where
  "settle done e =
     (if done then Resolved
      else case e of Eof \<Rightarrow> Resolved | ReadError m \<Rightarrow> Rejected (or_default m ''Chat failed''))"

text \<open>The hook state after \<open>useState([])\<close>, \<open>useState(false)\<close>, \<open>useState('')\<close>.\<close>

definition chat_initial :: chat_state where
  "chat_initial = \<lparr>messages = [], isLoading = False, streamingMessage = []\<rparr>"

section \<open>The chat window (frontend/src/components/ChatWindow.jsx)\<close>

text \<open>
  Modelled from the spec: the \<open>Slider\<close> component (\<open>components/ui/slider\<close>) is not
  among the sources. It is given the properties \<open>min\<close>, \<open>max\<close> and \<open>step\<close> and hands
  \<open>onValueChange\<close> an array of one value for its one thumb, a whole number of steps
  above \<open>min\<close> and not above \<open>max\<close>.
\<close>

record slider =
  slider_min :: rat
  slider_max :: rat
  slider_step :: rat

definition slider_emits :: "slider \<Rightarrow> rat list \<Rightarrow> bool" where
  "slider_emits p vs =
     (case vs of
        [v] \<Rightarrow> slider_min p \<le> v \<and> v \<le> slider_max p
               \<and> of_int \<lfloor>(v - slider_min p) / slider_step p\<rfloor> * slider_step p = v - slider_min p
      | _ \<Rightarrow> False)"

text \<open>\<open><Slider min={0} max={2} step={0.1} value={temperature} onValueChange={setTemperature}/>\<close>\<close>

definition temperature_slider :: slider where
  "temperature_slider = \<lparr>slider_min = 0, slider_max = 2, slider_step = 1 / 10\<rparr>"

text \<open>
  The state of the window: its own \<open>inputMessage\<close> and \<open>temperature\<close> (an array, as
  the slider wants it), the state of the \<open>useChat\<close> hook, and the chat requests issued
  so far. A submit runs until \<open>sendMessage\<close> has settled.
\<close>

record chat_window =
  inputMessage :: string
  temperature :: "rat list"
  chat :: chat_state
  requests :: "chat_request list"

datatype cw_event = Change string | SliderChange "rat list" | Submit | Clear

definition cw_initial :: chat_window where
  "cw_initial = \<lparr>inputMessage = [], temperature = [7 / 10], chat = chat_initial, requests = []\<rparr>"

definition clearMessages :: "chat_state \<Rightarrow> chat_state" where
  "clearMessages st = st\<lparr>messages := [], streamingMessage := []\<rparr>"

definition handleSubmit ::
  "(chat_request \<Rightarrow> response) \<Rightarrow> (string \<Rightarrow> frame option) \<Rightarrow> string option \<Rightarrow> chat_window
     \<Rightarrow> chat_window" where
  "handleSubmit fetch parse kbId w =
     (if trim (inputMessage w) = [] \<or> isLoading (chat w) then w
      else
        let message = trim (inputMessage w);
            w1 = w\<lparr>inputMessage := []\<rparr>;
            (st, issued) = sendMessage fetch parse kbId message
                             (case temperature w of [] \<Rightarrow> None | t # _ \<Rightarrow> Some t) (chat w1)
        in w1\<lparr>chat := st, requests := requests w1 @ issued\<rparr>)"

fun cw_step ::
  "(chat_request \<Rightarrow> response) \<Rightarrow> (string \<Rightarrow> frame option) \<Rightarrow> string option \<Rightarrow> cw_event
     \<Rightarrow> chat_window \<Rightarrow> chat_window" where
  "cw_step fetch parse kbId (Change v) w = w\<lparr>inputMessage := v\<rparr>"
| "cw_step fetch parse kbId (SliderChange vs) w = w\<lparr>temperature := vs\<rparr>"
| "cw_step fetch parse kbId Submit w = handleSubmit fetch parse kbId w"
| "cw_step fetch parse kbId Clear w = w\<lparr>chat := clearMessages (chat w)\<rparr>"

definition ChatWindow ::
  "(chat_request \<Rightarrow> response) \<Rightarrow> (string \<Rightarrow> frame option) \<Rightarrow> string option \<Rightarrow> cw_event list
     \<Rightarrow> chat_window" where
  "ChatWindow fetch parse kbId evs = fold (cw_step fetch parse kbId) evs cw_initial"

text \<open>The temperature interval, and the invariant of the window that keeps to it.\<close>

definition in_range :: "rat \<Rightarrow> bool" where
  "in_range t = (0 \<le> t \<and> t \<le> 2)"

definition cw_inv :: "chat_window \<Rightarrow> bool" where
  "cw_inv w = ((\<forall>t \<in> set (temperature w). in_range t)
               \<and> (\<forall>r \<in> set (requests w). in_range (req_temperature r)))"

section \<open>Properties of the chat client\<close>

lemma split_from_nonempty: "split_from cur s \<noteq> []"
  by (induction s arbitrary: cur) auto

lemma split_from_no_newline: "newline \<notin> set b \<Longrightarrow> split_from cur (b @ y) = split_from (cur @ b) y"
  by (induction b arbitrary: cur) auto

lemma last_split_from_no_newline:
  "newline \<notin> set cur \<Longrightarrow> newline \<notin> set (last (split_from cur s))"
  by (induction s arbitrary: cur) (auto simp: split_from_nonempty)

lemma butlast_split_from_append:
  "butlast (split_from cur (x @ y))
     = butlast (split_from cur x) @ butlast (split_from (last (split_from cur x)) y)"
  by (induction x arbitrary: cur) (auto simp: split_from_nonempty)

lemma process_lines_append:
  "process_lines parse onChunk (xs @ ys) s =
     (case process_lines parse onChunk xs s of
        Normal s' \<Rightarrow> process_lines parse onChunk ys s'
      | c \<Rightarrow> c)"
  by (induction xs arbitrary: s) (auto split: completion.splits)

lemma read_loop_lines:
  "newline \<notin> set buffer \<Longrightarrow>
   read_loop parse onChunk reads e buffer s =
     (case process_lines parse onChunk (butlast (split_nl (buffer @ concat reads))) s of
        Normal s' \<Rightarrow> stream_end e s'
      | c \<Rightarrow> c)"
proof (induction reads arbitrary: buffer s)
  case Nil
  have "split_from [] (buffer @ []) = split_from ([] @ buffer) []"
    using Nil by (rule split_from_no_newline)
  then have "butlast (split_nl buffer) = []"
    by (simp add: split_nl_def)
  then show ?case
    by (cases e) (simp_all add: stream_end_def)
next
  case (Cons v reads)
  let ?lines = "split_nl (buffer @ v)"
  have nl: "newline \<notin> set (last ?lines)"
    unfolding split_nl_def by (rule last_split_from_no_newline) simp
  have "split_from [] (last ?lines @ concat reads) = split_from ([] @ last ?lines) (concat reads)"
    using nl by (rule split_from_no_newline)
  then have "butlast (split_nl (buffer @ concat (v # reads)))
      = butlast ?lines @ butlast (split_nl (last ?lines @ concat reads))"
    using butlast_split_from_append [of "[]" "buffer @ v" "concat reads"]
    by (simp add: split_nl_def)
  then show ?case
    using Cons.IH [OF nl]
    by (simp add: process_lines_append Let_def split: completion.splits)
qed

lemma split_from_newlines:
  "split_from cur (replicate (Suc k) newline @ rest) = cur # replicate k [] @ split_from [] rest"
  by (induction k arbitrary: cur) auto

lemma newline_data_line: "newline \<notin> set p \<Longrightarrow> newline \<notin> set (data_line p)"
  by (simp add: data_line_def newline_def)

lemma split_sse_event:
  assumes "newline \<notin> set p"
  shows "split_from [] (sse_event (k, p) @ rest) = sse_lines (k, p) @ split_from [] rest"
proof -
  have "newline \<notin> set (data_line p)"
    using assms by (rule newline_data_line)
  then have "split_from [] (data_line p @ replicate (Suc k) newline @ rest)
      = split_from ([] @ data_line p) (replicate (Suc k) newline @ rest)"
    by (rule split_from_no_newline)
  then show ?thesis
    by (simp add: sse_event_def sse_lines_def split_from_newlines del: replicate_Suc)
qed

lemma split_sse_text:
  "\<forall>(k, p) \<in> set evs. newline \<notin> set p \<Longrightarrow>
   split_nl (concat (map sse_event evs)) = concat (map sse_lines evs) @ [[]]"
proof (induction evs)
  case Nil
  then show ?case by (simp add: split_nl_def)
next
  case (Cons ev evs)
  obtain k p where ev: "ev = (k, p)" by (cases ev)
  with Cons.prems have "newline \<notin> set p" by simp
  then have "split_from [] (sse_event (k, p) @ concat (map sse_event evs))
      = sse_lines (k, p) @ split_from [] (concat (map sse_event evs))"
    by (rule split_sse_event)
  with Cons ev show ?case
    by (simp add: split_nl_def)
qed

lemma process_blank_lines:
  "process_lines parse onChunk (replicate k [] @ ls) s = process_lines parse onChunk ls s"
  by (induction k) (simp_all add: process_line_def startsWith_def)

lemma process_data_line:
  assumes "trim p \<noteq> []"
  shows "process_line parse onChunk (data_line p) s =
           (case try_frame parse onChunk p s of Thrown m s' \<Rightarrow> Normal s' | c \<Rightarrow> c)"
  using assms by (simp add: process_line_def startsWith_def data_line_def)

lemma try_frame_Some:
  assumes "parse p = Some f"
  shows "(case try_frame parse onChunk p s of Thrown m s' \<Rightarrow> Normal s' | c \<Rightarrow> c) =
           (if is_done f then Returned s
            else Normal (fold onChunk (forwarded [f]) s))"
  using assms
  by (auto simp: try_frame_def is_done_def is_control_def forwarded_def split: option.splits)

lemma process_sse_lines:
  assumes "\<forall>(k, p) \<in> set evs. trim p \<noteq> [] \<and> parse p \<noteq> None"
  shows "process_lines parse onChunk (concat (map sse_lines evs)) s =
           (let frames = map (\<lambda>(k, p). the (parse p)) evs in
            if \<exists>f \<in> set frames. is_done f
            then Returned (fold onChunk (forwarded frames) s)
            else Normal (fold onChunk (forwarded frames) s))"
  using assms
proof (induction evs arbitrary: s)
  case Nil
  then show ?case by (simp add: forwarded_def)
next
  case (Cons ev evs)
  obtain k p where ev: "ev = (k, p)" by (cases ev)
  with Cons.prems obtain f where p: "trim p \<noteq> []" "parse p = Some f" by auto
  have rest: "\<forall>(k, p) \<in> set evs. trim p \<noteq> [] \<and> parse p \<noteq> None"
    using Cons.prems by simp
  have line: "process_line parse onChunk (data_line p) s =
      (if is_done f then Returned s else Normal (fold onChunk (forwarded [f]) s))"
    using process_data_line [OF p(1), of parse onChunk s]
      try_frame_Some [of parse p f onChunk s, OF p(2)] by simp
  let ?rest = "concat (map sse_lines evs)"
  let ?frames = "map (\<lambda>(k, p). the (parse p)) evs"
  have lines: "concat (map sse_lines (ev # evs)) = data_line p # replicate k [] @ ?rest"
    by (simp add: ev sse_lines_def)
  have frames: "map (\<lambda>(k, p). the (parse p)) (ev # evs) = f # ?frames"
    by (simp add: ev p(2))
  show ?case
  proof (cases "is_done f")
    case True
    then have "process_lines parse onChunk (data_line p # replicate k [] @ ?rest) s = Returned s"
      by (simp add: line)
    moreover have "forwarded (f # ?frames) = []"
      using True by (simp add: forwarded_def)
    ultimately show ?thesis
      unfolding lines frames using True by simp
  next
    case False
    let ?s = "fold onChunk (forwarded [f]) s"
    have "process_line parse onChunk (data_line p) s = Normal ?s"
      using False line by simp
    then have "process_lines parse onChunk (data_line p # replicate k [] @ ?rest) s
        = process_lines parse onChunk (replicate k [] @ ?rest) ?s"
      by simp
    then have "process_lines parse onChunk (data_line p # replicate k [] @ ?rest) s
        = process_lines parse onChunk ?rest ?s"
      by (simp only: process_blank_lines)
    moreover have "forwarded (f # ?frames) = forwarded [f] @ forwarded ?frames"
      using False by (simp add: forwarded_def)
    ultimately show ?thesis
      unfolding lines frames using False Cons.IH [OF rest, of ?s] by (simp add: Let_def)
  qed
qed

text \<open>
  The client on a well-formed chat stream. Let the response body, cut into pieces in any
  way, be the concatenation of events \<open>data: <payload>\<close> followed by line feeds, where no
  payload holds a line feed and each is a frame that \<open>JSON.parse\<close> accepts. Then the
  \<open>onChunk\<close> calls are those for \<open>forwarded\<close>, and a \<open>done\<close> frame or else the end of
  the stream settles the promise.
\<close>

lemma sendChatMessage_wellformed:
  assumes "fetch (chat_body kbId message temp) = Body reads e"
    and "concat reads = concat (map sse_event evs)"
    and "\<forall>(k, p) \<in> set evs. newline \<notin> set p \<and> trim p \<noteq> [] \<and> parse p \<noteq> None"
  shows "sendChatMessage fetch parse kbId message temp onChunk s =
           (chat_body kbId message temp,
            fold onChunk (forwarded (map (\<lambda>(k, p). the (parse p)) evs)) s,
            settle (\<exists>f \<in> set (map (\<lambda>(k, p). the (parse p)) evs). is_done f) e)"
proof -
  let ?frames = "map (\<lambda>(k, p). the (parse p)) evs"
  have nl: "\<forall>(k, p) \<in> set evs. newline \<notin> set p"
    using assms(3) by auto
  have ok: "\<forall>(k, p) \<in> set evs. trim p \<noteq> [] \<and> parse p \<noteq> None"
    using assms(3) by auto
  have "butlast (split_nl ([] @ concat reads)) = concat (map sse_lines evs)"
    using split_sse_text [OF nl] assms(2) by simp
  then have loop: "read_loop parse onChunk reads e [] s =
      (case process_lines parse onChunk (concat (map sse_lines evs)) s of
         Normal s' \<Rightarrow> stream_end e s'
       | c \<Rightarrow> c)"
    using read_loop_lines [of "[]" parse onChunk reads e s] by simp
  have lines: "process_lines parse onChunk (concat (map sse_lines evs)) s =
      (if \<exists>f \<in> set ?frames. is_done f
       then Returned (fold onChunk (forwarded ?frames) s)
       else Normal (fold onChunk (forwarded ?frames) s))"
    using process_sse_lines [OF ok, of onChunk s] by (simp add: Let_def)
  show ?thesis
  proof (cases "\<exists>f \<in> set ?frames. is_done f")
    case True
    then have "read_loop parse onChunk reads e [] s = Returned (fold onChunk (forwarded ?frames) s)"
      unfolding loop lines by simp
    with True assms(1) show ?thesis
      by (simp add: sendChatMessage_def settle_def)
  next
    case False
    then have "read_loop parse onChunk reads e [] s = stream_end e (fold onChunk (forwarded ?frames) s)"
      unfolding loop lines by simp
    with False assms(1) show ?thesis
      by (cases e) (simp_all add: sendChatMessage_def settle_def stream_end_def)
  qed
qed

text \<open>
  Claim C2, as amended. Let the response body, cut into pieces in any way, be a
  well-formed chat stream: the concatenation of events \<open>data: <payload>\<close> followed by
  line feeds, where no payload holds a line feed and each is a frame that
  \<open>JSON.parse\<close> accepts. Then \<open>sendChatMessage\<close> calls \<open>onChunk\<close> exactly once for
  each frame that carries a non-empty content and whose type is none of \<open>start\<close>,
  \<open>end\<close>, \<open>error\<close> and \<open>done\<close>, in the order of the frames, up to the first \<open>done\<close>
  frame; there it returns (the promise resolves, whatever the stream does later) and
  no later frame reaches \<open>onChunk\<close>.
\<close>

theorem sendChatMessage_stream:
  assumes "fetch (chat_body kbId message temp) = Body reads e"
    and "concat reads = concat (map sse_event evs)"
    and "\<forall>(k, p) \<in> set evs. newline \<notin> set p \<and> trim p \<noteq> [] \<and> parse p \<noteq> None"
  shows "fst (snd (sendChatMessage fetch parse kbId message temp onChunk s))
           = fold onChunk (forwarded (map (\<lambda>(k, p). the (parse p)) evs)) s
         \<and> ((\<exists>f \<in> set (map (\<lambda>(k, p). the (parse p)) evs). is_done f) \<longrightarrow>
              snd (snd (sendChatMessage fetch parse kbId message temp onChunk s)) = Resolved)"
  using sendChatMessage_wellformed [of fetch kbId message temp reads e evs parse onChunk s] assms
  by (simp add: settle_def)

text \<open>
  A stream of five frames in four pieces, one frame cut in two by a piece boundary and
  one content frame after the \<open>done\<close> frame.
\<close>

theorem sendChatMessage_stream_witness:
  \<open>fst (snd (sendChatMessage
     (respond_with (Body [''data: {"type":"start"}\<newline>\<newline>data: {"type":"con'',
                          ''tent","content":"Hel"}\<newline>\<newline>'',
                          ''data: {"type":"content","content":"lo"}\<newline>\<newline>data: {"type":"done"}\<newline>\<newline>'',
                          ''data: {"type":"content","content":"lo"}\<newline>\<newline>''] Eof))
     sample_parse ''kb1'' ''hello'' None log_chunk [])) = [''Hel'', ''lo'']
   \<and> snd (snd (sendChatMessage
     (respond_with (Body [''data: {"type":"start"}\<newline>\<newline>data: {"type":"con'',
                          ''tent","content":"Hel"}\<newline>\<newline>'',
                          ''data: {"type":"content","content":"lo"}\<newline>\<newline>data: {"type":"done"}\<newline>\<newline>'',
                          ''data: {"type":"content","content":"lo"}\<newline>\<newline>''] Eof))
     sample_parse ''kb1'' ''hello'' None log_chunk [])) = Resolved\<close>
  using sendChatMessage_stream
    [of \<open>respond_with (Body [''data: {"type":"start"}\<newline>\<newline>data: {"type":"con'',
                          ''tent","content":"Hel"}\<newline>\<newline>'',
                          ''data: {"type":"content","content":"lo"}\<newline>\<newline>data: {"type":"done"}\<newline>\<newline>'',
                          ''data: {"type":"content","content":"lo"}\<newline>\<newline>''] Eof)\<close>
        \<open>''kb1''\<close> \<open>''hello''\<close> None _ Eof
        \<open>[(1, ''{"type":"start"}''), (1, ''{"type":"content","content":"Hel"}''),
          (1, ''{"type":"content","content":"lo"}''), (1, ''{"type":"done"}''),
          (1, ''{"type":"content","content":"lo"}'')]\<close>
        sample_parse log_chunk \<open>[]\<close>]
  by (simp add: respond_with_def sse_event_def data_line_def newline_def trim_def is_ws_def
      sample_parse_def forwarded_def is_done_def is_control_def log_chunk_def)

text \<open>
  Claim C2 as stated fails on a \<open>start\<close> frame that carries a content: \<open>start\<close> is not a
  terminal type and the content is not empty, yet the client skips the frame.
\<close>

theorem sendChatMessage_start_content_counterexample:
  \<open>fst (snd (sendChatMessage
      (respond_with (Body [''data: {"type":"start","content":"hi"}\<newline>\<newline>'',
                           ''data: {"type":"done"}\<newline>\<newline>''] Eof))
      sample_parse ''kb1'' ''hello'' None log_chunk []))
   \<noteq> claimed_forwarded
       [the (sample_parse ''{"type":"start","content":"hi"}''), the (sample_parse ''{"type":"done"}'')]\<close>
  by (simp add: sendChatMessage_def respond_with_def split_nl_def newline_def process_line_def
      startsWith_def trim_def is_ws_def try_frame_def sample_parse_def claimed_forwarded_def
      is_done_def log_chunk_def)

text \<open>
  Claim C1 says that a frame of type \<open>error\<close> makes the promise of \<open>sendChatMessage\<close>
  reject with the frame's content as message. The client does throw
  \<open>new Error(parsed.content)\<close>, but inside the \<open>try\<close> whose \<open>catch (parseError)\<close> only
  logs a warning: on the stream below, whose last frame is
  \<open>{"type":"error","content":"boom"}\<close>, the promise resolves.
\<close>

theorem sendChatMessage_error_frame_swallowed:
  \<open>sendChatMessage
     (respond_with (Body [''data: {"type":"start"}\<newline>\<newline>'',
                          ''data: {"type":"error","content":"boom"}\<newline>\<newline>''] Eof))
     sample_parse ''kb1'' ''hello'' None log_chunk []
   = (chat_body ''kb1'' ''hello'' None, [], Resolved)\<close>
  by (simp add: sendChatMessage_def respond_with_def split_nl_def newline_def process_line_def
      startsWith_def trim_def is_ws_def try_frame_def sample_parse_def log_chunk_def)

text \<open>
  Claim C9 says that after \<open>sendMessage\<close> has settled \<open>streamingMessage\<close> is empty, whether
  the request resolved or threw. When reading the stream fails after a content frame
  has arrived, the \<open>catch\<close> branch adds the error message and \<open>finally\<close> clears
  \<open>isLoading\<close>, but nothing resets \<open>streamingMessage\<close>: it keeps the partial answer.
\<close>

theorem sendMessage_read_error_keeps_streaming_text:
  \<open>fst (sendMessage
     (respond_with (Body [''data: {"type":"content","content":"Hel"}\<newline>\<newline>'']
                         (ReadError ''network error'')))
     sample_parse (Some ''kb1'') ''hello'' None chat_initial)
   = \<lparr>messages = [\<lparr>content = ''hello'', role = ''user'', sources = [], isError = False\<rparr>,
                   \<lparr>content = error_text, role = ''assistant'', sources = [], isError = True\<rparr>],
      isLoading = False,
      streamingMessage = ''Hel''\<rparr>\<close>
  by (simp add: sendMessage_def sendChatMessage_def respond_with_def split_nl_def newline_def
      process_line_def startsWith_def trim_def is_ws_def try_frame_def sample_parse_def
      on_chunk_def chat_initial_def no_kb_def addMessage_def or_default_def)

text \<open>
  What does hold for every call that issues a request: one request is issued, the user
  message with the trimmed content is appended before it, \<open>isLoading\<close> ends false, one
  assistant message is appended, flagged \<open>isError\<close> exactly when the request threw, and
  \<open>streamingMessage\<close> is reset when the request resolved.
\<close>

lemma sendMessage_settled:
  assumes "trim c \<noteq> []" and "\<not> no_kb kbId"
  obtains request ac st' out where
    "sendChatMessage fetch parse (the kbId) c
       (Some (case t of None \<Rightarrow> default_temperature | Some t \<Rightarrow> t)) on_chunk
       ([], st\<lparr>messages := messages st @ [\<lparr>content = trim c, role = ''user'', sources = [], isError = False\<rparr>],
               isLoading := True, streamingMessage := []\<rparr>) = (request, (ac, st'), out)"
    and "snd (sendMessage fetch parse kbId c t st) = [request]"
    and "isLoading (fst (sendMessage fetch parse kbId c t st)) = False"
    and "messages (fst (sendMessage fetch parse kbId c t st)) =
           messages st' @ [\<lparr>content = (if out = Resolved then ac else error_text), role = ''assistant'',
                            sources = [], isError = (out \<noteq> Resolved)\<rparr>]"
    and "out = Resolved \<Longrightarrow> streamingMessage (fst (sendMessage fetch parse kbId c t st)) = []"
proof -
  let ?st3 = "st\<lparr>messages := messages st @ [\<lparr>content = trim c, role = ''user'', sources = [], isError = False\<rparr>],
               isLoading := True, streamingMessage := []\<rparr>"
  let ?t = "Some (case t of None \<Rightarrow> default_temperature | Some t \<Rightarrow> t)"
  obtain request ac st' out where
    r: "sendChatMessage fetch parse (the kbId) c ?t on_chunk ([], ?st3) = (request, (ac, st'), out)"
    by (metis surj_pair)
  show thesis
  proof (rule that [OF r])
    show "snd (sendMessage fetch parse kbId c t st) = [request]"
      using assms r by (cases out) (simp_all add: sendMessage_def addMessage_def Let_def)
    show "isLoading (fst (sendMessage fetch parse kbId c t st)) = False"
      using assms r by (cases out) (simp_all add: sendMessage_def addMessage_def Let_def)
    show "messages (fst (sendMessage fetch parse kbId c t st)) =
           messages st' @ [\<lparr>content = (if out = Resolved then ac else error_text), role = ''assistant'',
                            sources = [], isError = (out \<noteq> Resolved)\<rparr>]"
      using assms r by (cases out) (simp_all add: sendMessage_def addMessage_def Let_def)
    show "out = Resolved \<Longrightarrow> streamingMessage (fst (sendMessage fetch parse kbId c t st)) = []"
      using assms r by (simp add: sendMessage_def addMessage_def Let_def)
  qed
qed

text \<open>
  Claim C6. When the content is empty or white space only, or no knowledge base is
  selected (\<open>kbId\<close> undefined or empty), \<open>sendMessage\<close> issues no chat request and leaves
  the hook state (messages, loading flag, streaming text) as it was; a request is
  issued only for a content that is non-empty after trimming, with a \<open>kbId\<close> present.
\<close>

theorem sendMessage_guard:
  "(trim c = [] \<or> no_kb kbId \<longrightarrow> sendMessage fetch parse kbId c t st = (st, []))
   \<and> (snd (sendMessage fetch parse kbId c t st) \<noteq> [] \<longrightarrow>
        trim c \<noteq> [] \<and> (\<exists>k. kbId = Some k \<and> k \<noteq> []))"
  by (auto simp: sendMessage_def no_kb_def split: option.splits)

theorem sendMessage_guard_witness:
  \<open>sendMessage (respond_with (Body [''data: {"type":"done"}\<newline>\<newline>''] Eof)) sample_parse
       (Some ''kb1'') '' \<newline> '' None chat_initial = (chat_initial, [])
   \<and> sendMessage (respond_with (Body [''data: {"type":"done"}\<newline>\<newline>''] Eof)) sample_parse
       None ''hello'' None chat_initial = (chat_initial, [])
   \<and> snd (sendMessage (respond_with (Body [''data: {"type":"done"}\<newline>\<newline>''] Eof)) sample_parse
       (Some ''kb1'') '' hello '' None chat_initial) \<noteq> []
   \<and> trim '' hello '' = ''hello''\<close>
  using
    sendMessage_guard [of \<open>'' \<newline> ''\<close> \<open>Some ''kb1''\<close>
      \<open>respond_with (Body [''data: {"type":"done"}\<newline>\<newline>''] Eof)\<close> sample_parse None chat_initial]
    sendMessage_guard [of \<open>''hello''\<close> None
      \<open>respond_with (Body [''data: {"type":"done"}\<newline>\<newline>''] Eof)\<close> sample_parse None chat_initial]
    sendMessage_guard [of \<open>'' hello ''\<close> \<open>Some ''kb1''\<close>
      \<open>respond_with (Body [''data: {"type":"done"}\<newline>\<newline>''] Eof)\<close> sample_parse None chat_initial]
  by (simp add: sendMessage_def sendChatMessage_def respond_with_def split_nl_def newline_def
      process_line_def startsWith_def trim_def is_ws_def try_frame_def sample_parse_def
      on_chunk_def chat_initial_def no_kb_def addMessage_def)

lemma sendChatMessage_request:
  "fst (sendChatMessage fetch parse k m t onChunk s) = chat_body k m t"
  by (simp add: sendChatMessage_def Let_def split: response.splits completion.splits)

lemma sendMessage_requests:
  "snd (sendMessage fetch parse kbId c t st) =
     (if trim c = [] \<or> no_kb kbId then []
      else [chat_body (the kbId) c (Some (case t of None \<Rightarrow> default_temperature | Some t \<Rightarrow> t))])"
proof (cases "trim c = [] \<or> no_kb kbId")
  case True
  then show ?thesis by (auto simp: sendMessage_def)
next
  case False
  let ?t = "Some (case t of None \<Rightarrow> default_temperature | Some t \<Rightarrow> t)"
  obtain request ac st' out where
    "sendChatMessage fetch parse (the kbId) c ?t on_chunk
       ([], st\<lparr>messages := messages st @ [\<lparr>content = trim c, role = ''user'', sources = [], isError = False\<rparr>],
               isLoading := True, streamingMessage := []\<rparr>) = (request, (ac, st'), out)"
    and "snd (sendMessage fetch parse kbId c t st) = [request]"
    using sendMessage_settled [of c kbId fetch parse t st] False by metis
  then show ?thesis
    using False sendChatMessage_request [of fetch parse "the kbId" c ?t] by (metis fst_conv)
qed

lemma slider_emits_in_range:
  "slider_emits temperature_slider vs \<Longrightarrow> \<forall>t \<in> set vs. in_range t"
  by (auto simp: slider_emits_def temperature_slider_def in_range_def split: list.splits)

lemma handleSubmit_inv:
  assumes "cw_inv w"
  shows "cw_inv (handleSubmit fetch parse kbId w)"
proof (cases "trim (inputMessage w) = [] \<or> isLoading (chat w)")
  case True
  with assms show ?thesis by (simp add: handleSubmit_def)
next
  case False
  let ?t = "case temperature w of [] \<Rightarrow> None | t # _ \<Rightarrow> Some t"
  let ?r = "sendMessage fetch parse kbId (trim (inputMessage w)) ?t (chat w)"
  have w': "handleSubmit fetch parse kbId w
      = w\<lparr>inputMessage := [], chat := fst ?r, requests := requests w @ snd ?r\<rparr>"
    using False by (simp add: handleSubmit_def Let_def split_beta)
  have "in_range (case ?t of None \<Rightarrow> default_temperature | Some t \<Rightarrow> t)"
    using assms by (auto simp: cw_inv_def in_range_def default_temperature_def split: list.splits)
  then have "\<forall>r \<in> set (snd ?r). in_range (req_temperature r)"
    unfolding sendMessage_requests by (simp add: chat_body_def)
  with assms show ?thesis
    unfolding w' by (auto simp: cw_inv_def)
qed

lemma cw_step_inv:
  assumes "cw_inv w" and "\<And>vs. ev = SliderChange vs \<Longrightarrow> slider_emits temperature_slider vs"
  shows "cw_inv (cw_step fetch parse kbId ev w)"
proof (cases ev)
  case (SliderChange vs)
  with assms slider_emits_in_range [of vs] show ?thesis by (simp add: cw_inv_def)
next
  case Submit
  with assms show ?thesis by (simp add: handleSubmit_inv)
qed (use assms in \<open>simp_all add: cw_inv_def\<close>)

lemma cw_fold_inv:
  assumes "cw_inv w" and "\<forall>vs. SliderChange vs \<in> set evs \<longrightarrow> slider_emits temperature_slider vs"
  shows "cw_inv (fold (cw_step fetch parse kbId) evs w)"
  using assms
proof (induction evs arbitrary: w)
  case Nil
  then show ?case by simp
next
  case (Cons ev evs)
  have "cw_inv (cw_step fetch parse kbId ev w)"
    using Cons.prems by (intro cw_step_inv) auto
  then show ?case
    using Cons by simp
qed

lemma cw_initial_inv: "cw_inv cw_initial"
  by (simp add: cw_inv_def cw_initial_def in_range_def)

text \<open>
  Claim C5. Whatever the user does in the chat window, as long as the slider hands over
  only values between its \<open>min\<close> 0 and \<open>max\<close> 2 in steps of 0.1, every chat request
  carries a temperature between 0 and 2; and when the caller of \<open>sendChatMessage\<close> or
  of \<open>sendMessage\<close> passes no temperature, the request carries the default 0.7.
\<close>

theorem chat_temperature:
  "((\<forall>vs. SliderChange vs \<in> set evs \<longrightarrow> slider_emits temperature_slider vs) \<longrightarrow>
      (\<forall>r \<in> set (requests (ChatWindow fetch parse kbId evs)).
         0 \<le> req_temperature r \<and> req_temperature r \<le> 2))
   \<and> req_temperature (fst (sendChatMessage fetch parse k m None onChunk s)) = 7 / 10
   \<and> (trim c \<noteq> [] \<and> \<not> no_kb kbId \<longrightarrow>
        map req_temperature (snd (sendMessage fetch parse kbId c None st)) = [7 / 10])"
proof (intro conjI impI)
  assume "\<forall>vs. SliderChange vs \<in> set evs \<longrightarrow> slider_emits temperature_slider vs"
  then have "cw_inv (ChatWindow fetch parse kbId evs)"
    unfolding ChatWindow_def by (rule cw_fold_inv [OF cw_initial_inv])
  then show "\<forall>r \<in> set (requests (ChatWindow fetch parse kbId evs)).
         0 \<le> req_temperature r \<and> req_temperature r \<le> 2"
    by (simp add: cw_inv_def in_range_def)
next
  show "req_temperature (fst (sendChatMessage fetch parse k m None onChunk s)) = 7 / 10"
    by (simp add: sendChatMessage_request chat_body_def default_temperature_def)
next
  assume "trim c \<noteq> [] \<and> \<not> no_kb kbId"
  then show "map req_temperature (snd (sendMessage fetch parse kbId c None st)) = [7 / 10]"
    by (simp add: sendMessage_requests chat_body_def default_temperature_def)
qed

theorem chat_temperature_witness:
  \<open>slider_emits temperature_slider [3 / 2]
   \<and> requests (ChatWindow (respond_with (Body [''data: {"type":"done"}\<newline>\<newline>''] Eof)) sample_parse
        (Some ''kb1'') [Change ''hello'', SliderChange [3 / 2], Submit])
       = [\<lparr>req_kbId = ''kb1'', req_message = ''hello'', req_temperature = 3 / 2\<rparr>]
   \<and> (0::rat) \<le> 3 / 2 \<and> (3 / 2 :: rat) \<le> 2
   \<and> trim ''hello'' \<noteq> [] \<and> \<not> no_kb (Some ''kb1'')
   \<and> map req_temperature
        (snd (sendMessage (respond_with (Body [''data: {"type":"done"}\<newline>\<newline>''] Eof)) sample_parse
           (Some ''kb1'') ''hello'' None chat_initial)) = [7 / 10]\<close>
  using chat_temperature
    [of \<open>[Change ''hello'', SliderChange [3 / 2], Submit]\<close>
        \<open>respond_with (Body [''data: {"type":"done"}\<newline>\<newline>''] Eof)\<close> sample_parse
        \<open>Some ''kb1''\<close> \<open>''kb1''\<close> \<open>''hello''\<close> log_chunk \<open>[]\<close> \<open>''hello''\<close> chat_initial]
  by (simp add: ChatWindow_def cw_initial_def handleSubmit_def chat_initial_def
      sendMessage_def sendChatMessage_def respond_with_def split_nl_def newline_def
      process_line_def startsWith_def trim_def is_ws_def try_frame_def sample_parse_def
      on_chunk_def no_kb_def addMessage_def chat_body_def slider_emits_def temperature_slider_def
      Let_def default_temperature_def)

section \<open>The text splitter\<close>

text \<open>
  Modelled from the spec: the text splitter belongs to the backend, which is not among
  the sources. Its contract: given the extracted text, a target chunk size and an
  overlap smaller than the chunk size (both in characters), it fails with \<open>EmptyInput\<close>
  when the text is empty or white space only, and otherwise produces the chunks in
  order, covering the text without gaps: a chunk holds at most \<open>chunk_size\<close>
  characters, and the next chunk begins \<open>overlap\<close> characters before the end of the
  chunk. A text no longer than one chunk is one chunk. The guard \<open>chunk_size \<le> overlap\<close>
  only makes the function total on configurations the contract excludes.
\<close>

datatype split_error = EmptyInput

function chunks :: "nat \<Rightarrow> nat \<Rightarrow> string \<Rightarrow> string list" where
  "chunks chunk_size overlap text =
     (if length text \<le> chunk_size \<or> chunk_size \<le> overlap then [text]
      else take chunk_size text # chunks chunk_size overlap (drop (chunk_size - overlap) text))"
  by pat_completeness auto
termination
  by (relation "measure (\<lambda>(chunk_size, overlap, text). length text)") auto

declare chunks.simps [simp del]

text \<open>A text that is empty or white space only.\<close>

definition blank :: "string \<Rightarrow> bool" where
  "blank text = (\<forall>c \<in> set text. is_ws c)"

definition split_text :: "nat \<Rightarrow> nat \<Rightarrow> string \<Rightarrow> split_error + string list" where
  "split_text chunk_size overlap text =
     (if blank text then Inl EmptyInput else Inr (chunks chunk_size overlap text))"

text \<open>
  Concatenating chunks with the overlaps removed: the first chunk whole, every later
  chunk without its first \<open>overlap\<close> characters.
\<close>

definition reconstruct :: "nat \<Rightarrow> string list \<Rightarrow> string" where
  "reconstruct overlap cs = (case cs of [] \<Rightarrow> [] | c # rest \<Rightarrow> c @ concat (map (drop overlap) rest))"

lemma chunks_nonempty: "chunks n ov t \<noteq> []"
  by (subst chunks.simps) simp

lemma chunks_short: "length t \<le> n \<Longrightarrow> chunks n ov t = [t]"
  by (subst chunks.simps) simp

lemma chunks_long:
  "ov < n \<Longrightarrow> n < length t \<Longrightarrow> chunks n ov t = take n t # chunks n ov (drop (n - ov) t)"
  by (subst chunks.simps) simp

lemma hd_chunks_length: "ov < n \<Longrightarrow> ov < length t \<Longrightarrow> ov < length (hd (chunks n ov t))"
  by (subst chunks.simps) simp

lemma drop_reconstruct:
  assumes "cs \<noteq> []" and "ov \<le> length (hd cs)"
  shows "concat (map (drop ov) cs) = drop ov (reconstruct ov cs)"
  using assms by (cases cs) (simp_all add: reconstruct_def)

lemma reconstruct_chunks:
  assumes "ov < n"
  shows "reconstruct ov (chunks n ov t) = t"
proof (induction "length t" arbitrary: t rule: less_induct)
  case less
  show ?case
  proof (cases "length t \<le> n")
    case True
    then show ?thesis by (simp add: chunks_short reconstruct_def)
  next
    case False
    let ?t' = "drop (n - ov) t"
    let ?cs = "chunks n ov ?t'"
    from False assms have long: "n < length t" and shorter: "length ?t' < length t"
      by auto
    have ov': "ov < length ?t'"
      using long assms by simp
    have "concat (map (drop ov) ?cs) = drop ov (reconstruct ov ?cs)"
      using chunks_nonempty hd_chunks_length [OF assms ov'] by (intro drop_reconstruct) auto
    also have "\<dots> = drop ov ?t'"
      using less [OF shorter] by simp
    also have "\<dots> = drop n t"
      using assms by simp
    finally show ?thesis
      using long assms by (simp add: chunks_long reconstruct_def)
  qed
qed

lemma length_reconstruct_le:
  assumes "\<forall>c \<in> set cs. length c \<le> n" and "cs \<noteq> []" and "ov < n"
  shows "length (reconstruct ov cs) \<le> n + (length cs - 1) * (n - ov)"
proof -
  obtain c rest where cs: "cs = c # rest"
    using assms(2) by (cases cs) auto
  have "length (concat (map (drop ov) rest)) \<le> length rest * (n - ov)"
    using assms(1) unfolding cs
  proof (induction rest)
    case Nil
    then show ?case by simp
  next
    case (Cons x xs)
    then have "length x - ov \<le> n - ov" and "length (concat (map (drop ov) xs)) \<le> length xs * (n - ov)"
      by auto
    then show ?case by simp
  qed
  moreover have "length c \<le> n"
    using assms(1) cs by simp
  ultimately show ?thesis
    by (simp add: cs reconstruct_def)
qed

lemma length_chunks_le:
  assumes "ov < n"
  shows "0 < k \<Longrightarrow> length t \<le> n + (k - 1) * (n - ov) \<Longrightarrow> length (chunks n ov t) \<le> k"
proof (induction k arbitrary: t)
  case 0
  then show ?case by simp
next
  case (Suc k)
  show ?case
  proof (cases "length t \<le> n")
    case True
    then show ?thesis by (simp add: chunks_short)
  next
    case False
    then have long: "n < length t" by simp
    with Suc.prems have "0 < k"
      by (cases k) auto
    moreover have "length (drop (n - ov) t) \<le> n + (k - 1) * (n - ov)"
    proof -
      from \<open>0 < k\<close> obtain j where k: "k = Suc j" by (cases k) auto
      from Suc.prems(2) have "length t \<le> n + (j + 1) * (n - ov)"
        by (simp add: k)
      then have "length t - (n - ov) \<le> n + j * (n - ov)"
        by simp
      then show ?thesis by (simp add: k)
    qed
    ultimately have "length (chunks n ov (drop (n - ov) t)) \<le> k"
      by (rule Suc.IH)
    then show ?thesis
      using long assms by (simp add: chunks_long)
  qed
qed

lemma chunks_bounded:
  assumes "ov < n"
  shows "\<forall>c \<in> set (chunks n ov t). length c \<le> n"
proof (induction "length t" arbitrary: t rule: less_induct)
  case less
  show ?case
  proof (cases "length t \<le> n")
    case True
    then show ?thesis by (simp add: chunks_short)
  next
    case False
    then have long: "n < length t" by simp
    then have "length (drop (n - ov) t) < length t"
      using assms by simp
    then have "\<forall>c \<in> set (chunks n ov (drop (n - ov) t)). length c \<le> n"
      by (rule less)
    then show ?thesis
      using long assms by (simp add: chunks_long)
  qed
qed

lemma take_hd_chunks:
  assumes "ov < n" and "ov < length t"
  shows "take ov (hd (chunks n ov t)) = take ov t"
proof (cases "length t \<le> n")
  case True
  then show ?thesis by (simp add: chunks_short)
next
  case False
  then show ?thesis
    using assms by (simp add: chunks_long min_def)
qed

lemma chunks_overlap:
  assumes "ov < n"
  shows "Suc i < length (chunks n ov t) \<Longrightarrow>
         length (chunks n ov t ! i) = n
         \<and> take ov (chunks n ov t ! Suc i) = drop (n - ov) (chunks n ov t ! i)"
proof (induction i arbitrary: t)
  case 0
  then have long: "n < length t"
    using chunks_short [of t n ov] by (cases "length t \<le> n") auto
  let ?t' = "drop (n - ov) t"
  have cs: "chunks n ov t = take n t # chunks n ov ?t'"
    using assms long by (rule chunks_long)
  have "ov < length ?t'"
    using long assms by simp
  then have "take ov (hd (chunks n ov ?t')) = take ov ?t'"
    using assms by (intro take_hd_chunks)
  moreover have "chunks n ov ?t' \<noteq> []"
    by (rule chunks_nonempty)
  ultimately have "take ov (chunks n ov t ! Suc 0) = take ov ?t'"
    by (simp add: cs hd_conv_nth)
  moreover have "drop (n - ov) (take n t) = take ov ?t'"
    using assms by (simp add: drop_take)
  ultimately show ?case
    using long by (simp add: cs)
next
  case (Suc i)
  then have long: "n < length t"
    using chunks_short [of t n ov] by (cases "length t \<le> n") auto
  let ?t' = "drop (n - ov) t"
  have cs: "chunks n ov t = take n t # chunks n ov ?t'"
    using assms long by (rule chunks_long)
  from Suc.prems have "Suc i < length (chunks n ov ?t')"
    by (simp add: cs)
  then have "length (chunks n ov ?t' ! i) = n
         \<and> take ov (chunks n ov ?t' ! Suc i) = drop (n - ov) (chunks n ov ?t' ! i)"
    by (rule Suc.IH)
  then show ?case
    by (simp add: cs)
qed

text \<open>
  Claim C7, as amended. For every text that is not empty or white space only, and every
  configuration with \<open>overlap < chunk_size\<close>, the splitter produces a non-empty sequence
  of chunks of at most \<open>chunk_size\<close> characters each; every chunk but the last has
  exactly \<open>chunk_size\<close> characters and its last \<open>overlap\<close> characters are the first
  \<open>overlap\<close> characters of the next chunk; concatenating the chunks with the overlap
  of each later chunk removed gives the text back; no sequence of chunks of at most
  \<open>chunk_size\<close> characters that gives the text back in this way is shorter; and a text
  no longer than one chunk size is one chunk. The chunks are a function of the text and
  the configuration.
\<close>

theorem split_text_coverage:
  assumes "overlap < chunk_size" and "\<not> blank text"
  shows "\<exists>cs. split_text chunk_size overlap text = Inr cs
           \<and> cs \<noteq> []
           \<and> (\<forall>c \<in> set cs. length c \<le> chunk_size)
           \<and> (\<forall>i. Suc i < length cs \<longrightarrow>
                 length (cs ! i) = chunk_size
                 \<and> take overlap (cs ! Suc i) = drop (chunk_size - overlap) (cs ! i))
           \<and> reconstruct overlap cs = text
           \<and> (\<forall>cs'. (\<forall>c \<in> set cs'. length c \<le> chunk_size) \<and> reconstruct overlap cs' = text
                 \<longrightarrow> length cs \<le> length cs')
           \<and> (length text \<le> chunk_size \<longrightarrow> cs = [text])"
proof -
  let ?cs = "chunks chunk_size overlap text"
  have nonempty: "text \<noteq> []"
    using assms(2) by (auto simp: blank_def)
  have "split_text chunk_size overlap text = Inr ?cs"
    using assms(2) by (simp add: split_text_def)
  moreover have "?cs \<noteq> []"
    by (rule chunks_nonempty)
  moreover have "\<forall>c \<in> set ?cs. length c \<le> chunk_size"
    using assms(1) by (rule chunks_bounded)
  moreover have "\<forall>i. Suc i < length ?cs \<longrightarrow>
                 length (?cs ! i) = chunk_size
                 \<and> take overlap (?cs ! Suc i) = drop (chunk_size - overlap) (?cs ! i)"
    using chunks_overlap [OF assms(1)] by blast
  moreover have "reconstruct overlap ?cs = text"
    using assms(1) by (rule reconstruct_chunks)
  moreover have "length ?cs \<le> length cs'"
    if small: "\<forall>c \<in> set cs'. length c \<le> chunk_size" and rec: "reconstruct overlap cs' = text" for cs'
  proof -
    have ne: "cs' \<noteq> []"
      using rec nonempty by (auto simp: reconstruct_def)
    then have "length text \<le> chunk_size + (length cs' - 1) * (chunk_size - overlap)"
      using length_reconstruct_le [OF small ne assms(1)] rec by simp
    moreover have "0 < length cs'"
      using ne by simp
    ultimately show ?thesis
      by (rule length_chunks_le [OF assms(1), rotated])
  qed
  moreover have "length text \<le> chunk_size \<longrightarrow> ?cs = [text]"
    by (simp add: chunks_short)
  ultimately show ?thesis by blast
qed

theorem split_text_coverage_witness:
  "(1::nat) < 4 \<and> \<not> blank ''abcdefghij''
   \<and> split_text 4 1 ''abcdefghij'' = Inr [''abcd'', ''defg'', ''ghij'']
   \<and> reconstruct 1 [''abcd'', ''defg'', ''ghij''] = ''abcdefghij''
   \<and> reconstruct 1 [''abc'', ''cdef'', ''fghi'', ''ij''] = ''abcdefghij''
   \<and> length [''abcd'', ''defg'', ''ghij''] \<le> length [''abc'', ''cdef'', ''fghi'', ''ij'']
   \<and> take 1 ''defg'' = drop (4 - 1) ''abcd''
   \<and> split_text 10 1 ''abcdefghij'' = Inr [''abcdefghij'']"
proof -
  have cfg: "(1::nat) < 4" "(1::nat) < 10" and nb: "\<not> blank ''abcdefghij''"
    by (simp_all add: blank_def is_ws_def)
  note a = split_text_coverage [OF cfg(1) nb]
  note b = split_text_coverage [OF cfg(2) nb]
  have eval: "split_text 4 1 ''abcdefghij'' = Inr [''abcd'', ''defg'', ''ghij'']"
    using nb by (simp add: split_text_def chunks.simps)
  have other: "reconstruct 1 [''abc'', ''cdef'', ''fghi'', ''ij''] = ''abcdefghij''"
    by (simp add: reconstruct_def)
  from a eval have "reconstruct 1 [''abcd'', ''defg'', ''ghij''] = ''abcdefghij''"
    by auto
  moreover from b have "split_text 10 1 ''abcdefghij'' = Inr [''abcdefghij'']"
    by auto
  ultimately show ?thesis
    using cfg nb eval other by simp
qed

text \<open>
  Claim C7 as stated speaks of every input text; on the empty text, and on a text of
  white space only, the splitter fails with \<open>EmptyInput\<close> and produces no chunks.
\<close>

theorem split_text_empty_counterexample:
  "split_text 4 1 [] = Inl EmptyInput \<and> split_text 4 1 ''  '' = Inl EmptyInput"
  by (simp add: split_text_def blank_def is_ws_def)

end
